theory Spec2Isabelle
  imports Complex_Main
begin

section \<open>Python values used by the library\<close>

text \<open>
  A Python \<open>str\<close> is a \<open>string\<close>, one character for each code point (code points
  below 256). A Python \<open>int\<close> is an \<open>int\<close>.

  Exceptions are values. The library raises the built-in \<open>Exception\<close> with a message
  everywhere; \<open>assert\<close> raises \<open>AssertionError\<close>; the conversion \<open>float(...)\<close>
  raises \<open>ValueError\<close>; \<open>requests.post\<close> and \<open>raise_for_status\<close> raise the
  transport faults, gathered in \<open>RequestException\<close>.
\<close>

datatype error =
    Exception string
  | AssertionError
  | ValueError string
  | RequestException string

text \<open>\<open>sys.maxsize\<close> of a 64-bit CPython; no string is longer.\<close>

definition sys_maxsize :: int where
  "sys_maxsize = 2 ^ 63 - 1"

text \<open>
  A slice bound \<open>k\<close> on a sequence of length \<open>n\<close>: a negative bound counts from the
  end, and every bound is clipped to \<open>0..n\<close>.
\<close>

definition py_bound :: "nat \<Rightarrow> int \<Rightarrow> nat" where
  "py_bound n k = (if k < 0 then nat (max 0 (k + int n)) else min (nat k) n)"

text \<open>\<open>s[a:b]\<close>\<close>

definition py_slice :: "string \<Rightarrow> int \<Rightarrow> int \<Rightarrow> string" where
  "py_slice s a b =
     (let lo = py_bound (length s) a; hi = py_bound (length s) b
      in take (hi - lo) (drop lo s))"

text \<open>
  \<open>s.find(c, start)\<close> for a one-character \<open>c\<close>: the lowest index not before
  \<open>start\<close> that holds \<open>c\<close>, or \<open>-1\<close>.
\<close>

fun index_from :: "char \<Rightarrow> string \<Rightarrow> nat \<Rightarrow> int" where
  "index_from c [] pos = - 1"
| "index_from c (x # xs) pos = (if x = c then int pos else index_from c xs (Suc pos))"

definition py_find :: "string \<Rightarrow> char \<Rightarrow> int \<Rightarrow> int" where
  "py_find s c start = (let lo = py_bound (length s) start in index_from c (drop lo s) lo)"

text \<open>
  A Python \<open>float\<close>: a finite value, an infinity or a NaN. Its arithmetic is not
  modelled; \<open>float_info.max\<close> is the largest finite double.
\<close>

datatype py_float = Finite real | PosInf | NegInf | NaN

definition float_info_max :: real where
  "float_info_max = (2 ^ 53 - 1) * 2 ^ 971"

text \<open>\<open>-v\<close> on a float\<close>

fun float_neg :: "py_float \<Rightarrow> py_float" where
  "float_neg (Finite r) = Finite (- r)"
| "float_neg PosInf = NegInf"
| "float_neg NegInf = PosInf"
| "float_neg NaN = NaN"

text \<open>\<open>str(n)\<close> for an \<open>int\<close>: its decimal digits, with a sign when negative.\<close>

function digits_of :: "nat \<Rightarrow> string" where
  "digits_of n =
     (if n < 10 then [''0123456789'' ! n] else digits_of (n div 10) @ [''0123456789'' ! (n mod 10)])"
  by pat_completeness auto
termination
  by (relation "measure id") auto

definition str_int :: "int \<Rightarrow> string" where
  "str_int i = (if i < 0 then ''-'' @ digits_of (nat (- i)) else digits_of (nat i))"

text \<open>
  \<open>s.lower()\<close>, on characters read as code points below 256: the ASCII capitals and the
  capitals of Latin-1 (\<open>0xC0\<close> to \<open>0xDE\<close> without the multiplication sign \<open>0xD7\<close>) move
  up by 32, every other character stays.
\<close>

definition lower_char :: "char \<Rightarrow> char" where
  "lower_char c =
     (let n = (of_char c :: nat)
      in if (65 \<le> n \<and> n \<le> 90) \<or> (192 \<le> n \<and> n \<le> 222 \<and> n \<noteq> 215) then char_of (n + 32) else c)"

definition str_lower :: "string \<Rightarrow> string" where
  "str_lower s = map lower_char s"

section \<open>bracket_parser.py\<close>

definition START_TAG :: char where
  "START_TAG = CHR ''[''"

definition END_TAG :: char where
  "END_TAG = CHR '']''"

subsection \<open>\<open>matching_end_tag_index\<close>\<close>

text \<open>
  One pass through the body of the \<open>while (True)\<close> loop, from the scan index and the
  nesting level: it returns, or goes on with a new index and level. Both tags are one
  character long, so \<open>len(cls.START_TAG)\<close> and \<open>len(cls.END_TAG)\<close> are \<open>1\<close>.
\<close>

datatype loop_step = Return int | Continue int int

definition matching_end_tag_step :: "string \<Rightarrow> int \<Rightarrow> int \<Rightarrow> loop_step" where
  "matching_end_tag_step parse_string current_index nesting_level =
     (let start_tag_index = py_find parse_string START_TAG current_index;
          end_tag_index = py_find parse_string END_TAG current_index
      in if end_tag_index = - 1 then Return (- 1)
         else let start_tag_index = (if start_tag_index = - 1 then sys_maxsize else start_tag_index)
              in if start_tag_index < end_tag_index
                 then Continue (start_tag_index + 1) (nesting_level + 1)
                 else if nesting_level - 1 = 0 then Return end_tag_index
                 else Continue (end_tag_index + 1) (nesting_level - 1))"

text \<open>The loop itself; \<open>None\<close> is a loop that never returns.\<close>

partial_function (option) matching_end_tag_loop :: "string \<Rightarrow> int \<Rightarrow> int \<Rightarrow> int option" where
  "matching_end_tag_loop parse_string current_index nesting_level =
     (case matching_end_tag_step parse_string current_index nesting_level of
        Return r \<Rightarrow> Some r
      | Continue i l \<Rightarrow> matching_end_tag_loop parse_string i l)"

declare matching_end_tag_loop.simps [code]

definition matching_end_tag_index :: "string \<Rightarrow> int \<Rightarrow> (error + int) option" where
  "matching_end_tag_index parse_string start_tag_index =
     (if py_slice parse_string start_tag_index (start_tag_index + 1) \<noteq> [START_TAG]
      then Some (Inl AssertionError)
      else map_option Inr (matching_end_tag_loop parse_string (start_tag_index + 1) 1))"

subsection \<open>\<open>is_valid_parse_string\<close>\<close>

partial_function (option) is_valid_loop :: "string \<Rightarrow> int \<Rightarrow> (error + bool) option" where
  "is_valid_loop parse_string start_tag_index =
     (case matching_end_tag_index parse_string start_tag_index of
        None \<Rightarrow> None
      | Some (Inl e) \<Rightarrow> Some (Inl e)
      | Some (Inr end_tag_index) \<Rightarrow>
          if end_tag_index = - 1 then Some (Inr False)
          else let expected_start_tag_index = end_tag_index + 1
               in if expected_start_tag_index \<ge> int (length parse_string) then Some (Inr True)
                  else let start_tag_index = py_find parse_string START_TAG expected_start_tag_index
                       in if start_tag_index \<noteq> expected_start_tag_index then Some (Inr False)
                          else is_valid_loop parse_string start_tag_index)"

declare is_valid_loop.simps [code]

definition is_valid_parse_string :: "string \<Rightarrow> (error + bool) option" where
  "is_valid_parse_string parse_string =
     (if length parse_string = 0 then Some (Inr True)
      else if py_find parse_string START_TAG 0 \<noteq> 0 then Some (Inr False)
      else is_valid_loop parse_string 0)"

subsection \<open>The parser object\<close>

record BracketParser =
  parse_string :: string
  current_position :: int

definition BracketParser_init :: "string \<Rightarrow> BracketParser" where
  "BracketParser_init s = \<lparr>parse_string = s, current_position = 0\<rparr>"

definition has_next_token :: "BracketParser \<Rightarrow> (error + bool) option" where
  "has_next_token p =
     (if int (length (parse_string p)) - current_position p = 0 then Some (Inr False)
      else if py_find (parse_string p) START_TAG (current_position p) \<noteq> current_position p
      then Some (Inl (Exception ''Unexpected state in BracketString (not at a start tag)''))
      else case matching_end_tag_index (parse_string p) (current_position p) of
             None \<Rightarrow> None
           | Some (Inl e) \<Rightarrow> Some (Inl e)
           | Some (Inr endTagIndex) \<Rightarrow>
               if endTagIndex = - 1
               then Some (Inl (Exception ''Unexpected state in BracketString (missing end tag)''))
               else Some (Inr True))"

definition next_token :: "BracketParser \<Rightarrow> (error + string \<times> BracketParser) option" where
  "next_token p =
     (let start_tag_index = current_position p
      in if start_tag_index \<noteq> py_find (parse_string p) START_TAG (current_position p)
         then Some (Inl AssertionError)
         else case matching_end_tag_index (parse_string p) start_tag_index of
                None \<Rightarrow> None
              | Some (Inl e) \<Rightarrow> Some (Inl e)
              | Some (Inr end_tag_index) \<Rightarrow>
                  if \<not> end_tag_index > - 1 then Some (Inl AssertionError)
                  else let token_string = py_slice (parse_string p) (start_tag_index + 1) end_tag_index
                       in Some (Inr (token_string, p\<lparr>current_position := end_tag_index + 1\<rparr>)))"

subsection \<open>\<open>parse\<close>\<close>

partial_function (option) parse_loop :: "BracketParser \<Rightarrow> string list \<Rightarrow> (error + string list) option" where
  "parse_loop parser tokens =
     (case has_next_token parser of
        None \<Rightarrow> None
      | Some (Inl e) \<Rightarrow> Some (Inl e)
      | Some (Inr has_more) \<Rightarrow>
          if \<not> has_more then Some (Inr tokens)
          else case next_token parser of
                 None \<Rightarrow> None
               | Some (Inl e) \<Rightarrow> Some (Inl e)
               | Some (Inr (token, parser')) \<Rightarrow> parse_loop parser' (tokens @ [token]))"

declare parse_loop.simps [code]

definition parse :: "string \<Rightarrow> (error + string list) option" where
  "parse string_to_parse =
     (case is_valid_parse_string string_to_parse of
        None \<Rightarrow> None
      | Some (Inl e) \<Rightarrow> Some (Inl e)
      | Some (Inr valid) \<Rightarrow>
          if \<not> valid
          then Some (Inl (Exception ([CHR 0x27] @ string_to_parse @ [CHR 0x27] @ '' is not a valid bracket string'')))
          else parse_loop (BracketParser_init string_to_parse) [])"

subsection \<open>Nesting-depth counting, as the specification words it\<close>

text \<open>
  The specification's matching rule, read one character at a time: the scan starts just
  past an opening delimiter at nesting level 1; an opening delimiter increments the level,
  a closing delimiter decrements it, and the first decrement to zero selects the match.
  \<open>pos\<close> is the index of the first character of the text still to scan; the result
  is \<open>-1\<close> when the text ends before the level reaches zero.
\<close>

fun balance_scan :: "string \<Rightarrow> nat \<Rightarrow> int \<Rightarrow> int" where
  "balance_scan [] pos level = - 1"
| "balance_scan (c # cs) pos level =
     (if c = CHR ''['' then balance_scan cs (Suc pos) (level + 1)
      else if c = CHR '']'' then (if level - 1 = 0 then int pos else balance_scan cs (Suc pos) (level - 1))
      else balance_scan cs (Suc pos) level)"

text \<open>
  A bracket token: an opening delimiter, then text, then the closing delimiter that matches
  that opening delimiter, which is the last character.
\<close>

definition is_bracket_token :: "string \<Rightarrow> bool" where
  "is_bracket_token t =
     (case t of [] \<Rightarrow> False | c # cs \<Rightarrow> c = CHR ''['' \<and> balance_scan cs 1 1 = int (length cs))"

text \<open>A string that is bracket tokens one after the other, with nothing between or after.\<close>

abbreviation token_concat :: "string \<Rightarrow> bool" where
  "token_concat s \<equiv> \<exists>ts. (\<forall>t\<in>set ts. is_bracket_token t) \<and> concat ts = s"

text \<open>Re-encoding a token list: \<open>'[' + t + ']'\<close> for each token, in order.\<close>

definition encode_tokens :: "string list \<Rightarrow> string" where
  "encode_tokens ts = concat (map (\<lambda>t. ''['' @ t @ '']'') ts)"

section \<open>utilities.py\<close>

definition raise_if_invalid_string_property_value :: "string \<Rightarrow> error + unit" where
  "raise_if_invalid_string_property_value v =
     (if CHR ''['' \<in> set v then Inl (Exception ''String property values cannot contain '['.'')
      else if CHR '']'' \<in> set v then Inl (Exception ''String property values cannot contain ']'.'')
      else Inr ())"

text \<open>
  \<open>_user_str_to_API_float\<close>. The built-in \<open>float(value)\<close> on a string is a parameter:
  it gives a float or raises.
\<close>

definition user_str_to_API_float :: "(string \<Rightarrow> error + py_float) \<Rightarrow> string \<Rightarrow> error + py_float" where
  "user_str_to_API_float float_of_str v =
     (if v = ''infinite'' then Inr (Finite float_info_max)
      else if v = ''-infinite'' then Inr (float_neg (Finite float_info_max))
      else float_of_str v)"

text \<open>
  \<open>_API_float_to_user_str\<close> on a float: \<open>float(value)\<close> is the value itself and does
  not raise. The built-in \<open>str\<close> on a float is a parameter.
\<close>

definition API_float_to_user_str :: "(py_float \<Rightarrow> string) \<Rightarrow> py_float \<Rightarrow> error + string" where
  "API_float_to_user_str float_str v =
     (let float_value = v
      in if float_value = Finite float_info_max then Inr ''infinite''
         else if float_value = float_neg (Finite float_info_max) then Inr ''-infinite''
         else Inr (float_str float_value))"

definition API_bool_to_user_str :: "bool \<Rightarrow> error + string" where
  "API_bool_to_user_str v = (let bool_value = v in Inr (if bool_value then ''True'' else ''False''))"

section \<open>bracket_parser.py: \<open>parse_floats\<close>\<close>

fun parse_floats_loop ::
  "(string \<Rightarrow> error + py_float) \<Rightarrow> string list \<Rightarrow> py_float list \<Rightarrow> error + py_float list" where
  "parse_floats_loop float_of_str [] float_list = Inr float_list"
| "parse_floats_loop float_of_str (string # strings) float_list =
     (case user_str_to_API_float float_of_str string of
        Inl e \<Rightarrow> Inl e
      | Inr v \<Rightarrow> parse_floats_loop float_of_str strings (float_list @ [v]))"

definition parse_floats :: "(string \<Rightarrow> error + py_float) \<Rightarrow> string \<Rightarrow> (error + py_float list) option" where
  "parse_floats float_of_str string_to_parse =
     (case parse string_to_parse of
        None \<Rightarrow> None
      | Some (Inl e) \<Rightarrow> Some (Inl e)
      | Some (Inr strings) \<Rightarrow> Some (parse_floats_loop float_of_str strings []))"

section \<open>concept.py: the command channel\<close>

text \<open>
  The external process and the network are a parameter: \<open>post\<close> takes the state of the
  process and a request, and gives the response text, or the fault that
  \<open>requests.post\<close> or \<open>raise_for_status\<close> raises, with the next state of the process.
\<close>

record http_request =
  RequestId :: int
  body :: string
  timeout :: int

type_synonym 'srv http = "'srv \<Rightarrow> http_request \<Rightarrow> (error + string) \<times> 'srv"

text \<open>
  The \<open>Concept\<close> object with the process it talks to. \<open>posted\<close> is not a field of
  the class: it records the requests handed to \<open>requests.post\<close>, in order.
\<close>

record 'srv Concept =
  server :: 'srv
  nextRequestId :: int
  default_timeout_seconds :: int
  posted :: "http_request list"

definition Concept_command ::
  "'srv http \<Rightarrow> string \<Rightarrow> int option \<Rightarrow> 'srv Concept \<Rightarrow> (error + string) \<times> 'srv Concept" where
  "Concept_command post cmd timeout_seconds c =
     (let timeout_seconds = (case timeout_seconds of None \<Rightarrow> default_timeout_seconds c | Some t \<Rightarrow> t);
          requestId = nextRequestId c;
          request = \<lparr>RequestId = requestId, body = cmd, timeout = timeout_seconds\<rparr>;
          (response, server') = post (server c) request;
          c' = c\<lparr>server := server', nextRequestId := nextRequestId c + 1, posted := posted c @ [request]\<rparr>
      in case response of
           Inl fault \<Rightarrow> (Inl fault, c')
         | Inr result \<Rightarrow>
             let prefix = py_slice result 0 10
             in if prefix = ''[SUCCESS]['' then (Inr (py_slice result 10 (- 1)), c')
                else if prefix = ''[FAILURE][''
                then (Inl (Exception (''Error: '' @ py_slice result 10 (- 1))), c')
                else (Inl (Exception (''Internal Error: Invalid result returned from Concept process: '' @ result)), c'))"

section \<open>model.py and data.py\<close>

definition Model_command ::
  "'srv http \<Rightarrow> string \<Rightarrow> int option \<Rightarrow> 'srv Concept \<Rightarrow> (error + string) \<times> 'srv Concept" where
  "Model_command post cmd timeout_seconds c = Concept_command post cmd timeout_seconds c"

record Data =
  uid :: int
  read_only :: bool
  class_name :: string

datatype PropertyUnits = Internal | User

definition set_property_raise_if_read_only :: "Data \<Rightarrow> error + unit" where
  "set_property_raise_if_read_only d =
     (if read_only d then Inl (Exception (''Cannot set properties of read-only '' @ class_name d @ ''.''))
      else Inr ())"


definition Data_command :: "'srv http \<Rightarrow> Data \<Rightarrow> string \<Rightarrow> 'srv Concept \<Rightarrow> (error + string) \<times> 'srv Concept" where
  "Data_command post d cmd c =
     (let full_command = ''[WITH_TARGET]['' @ str_int (uid d) @ ''][''  @ cmd @ '']''
      in Model_command post full_command None c)"

definition get_property ::
  "'srv http \<Rightarrow> Data \<Rightarrow> string \<Rightarrow> PropertyUnits \<Rightarrow> 'srv Concept \<Rightarrow> (error + string) \<times> 'srv Concept" where
  "get_property post d property_name units c =
     (let command_name = (if units = Internal then ''GET_PROP_INTERNAL'' else ''GET_PROP_USER'');
          cmd = ''['' @ command_name @ ''][''  @ property_name @ '']''
      in Data_command post d cmd c)"

definition set_property ::
  "'srv http \<Rightarrow> Data \<Rightarrow> string \<Rightarrow> string \<Rightarrow> PropertyUnits \<Rightarrow> 'srv Concept \<Rightarrow> (error + unit) \<times> 'srv Concept" where
  "set_property post d property_name v units c =
     (case raise_if_invalid_string_property_value v of
        Inl e \<Rightarrow> (Inl e, c)
      | Inr _ \<Rightarrow>
          let command_name = (if units = Internal then ''SET_PROP_INTERNAL'' else ''SET_PROP_USER'');
              cmd = ''['' @ command_name @ ''][''  @ property_name @ ''][''  @ v @ '']''
          in case Data_command post d cmd c of
               (Inl e, c') \<Rightarrow> (Inl e, c')
             | (Inr _, c') \<Rightarrow> (Inr (), c'))"

definition set_string_property ::
  "'srv http \<Rightarrow> Data \<Rightarrow> string \<Rightarrow> string \<Rightarrow> 'srv Concept \<Rightarrow> (error + unit) \<times> 'srv Concept" where
  "set_string_property post d property_name v c = set_property post d property_name v Internal c"

definition get_bool_property ::
  "'srv http \<Rightarrow> Data \<Rightarrow> string \<Rightarrow> 'srv Concept \<Rightarrow> (error + bool) \<times> 'srv Concept" where
  "get_bool_property post d property_name c =
     (case get_property post d property_name Internal c of
        (Inl e, c') \<Rightarrow> (Inl e, c')
      | (Inr bool_string, c') \<Rightarrow>
          let lc_bool_string = str_lower bool_string
          in if lc_bool_string = ''true'' then (Inr True, c')
             else if lc_bool_string = ''false'' then (Inr False, c')
             else (Inl (Exception (''Unexpected bool string: '' @ bool_string)), c'))"

definition set_bool_property ::
  "'srv http \<Rightarrow> Data \<Rightarrow> string \<Rightarrow> bool \<Rightarrow> 'srv Concept \<Rightarrow> (error + unit) \<times> 'srv Concept" where
  "set_bool_property post d property_name v c =
     (case API_bool_to_user_str v of
        Inl e \<Rightarrow> (Inl e, c)
      | Inr bool_string \<Rightarrow> set_property post d property_name bool_string Internal c)"

definition set_float_property ::
  "(py_float \<Rightarrow> string) \<Rightarrow> 'srv http \<Rightarrow> Data \<Rightarrow> string \<Rightarrow> py_float \<Rightarrow> 'srv Concept
     \<Rightarrow> (error + unit) \<times> 'srv Concept" where
  "set_float_property float_str post d property_name v c =
     (case API_float_to_user_str float_str v of
        Inl e \<Rightarrow> (Inl e, c)
      | Inr float_string \<Rightarrow> set_property post d property_name float_string User c)"

text \<open>point_2D.py: a point and its \<open>[x][y]\<close> format.\<close>

datatype Point2D = Point2D (point_x: py_float) (point_y: py_float)

definition to_bracket_string :: "(py_float \<Rightarrow> string) \<Rightarrow> Point2D \<Rightarrow> string" where
  "to_bracket_string float_str p = ''['' @ float_str (point_x p) @ ''][''  @ float_str (point_y p) @ '']''"

text \<open>
  A value handed to a point setter: a \<open>Point2D\<close>, or an object of another type, kept
  as its \<open>str(value)\<close>.
\<close>

datatype py_object = PyPoint2D Point2D | PyOther string

definition set_point2D_property ::
  "(py_float \<Rightarrow> string) \<Rightarrow> 'srv http \<Rightarrow> Data \<Rightarrow> string \<Rightarrow> py_object \<Rightarrow> 'srv Concept
     \<Rightarrow> (error + unit) \<times> 'srv Concept" where
  "set_point2D_property float_str post d property_name v c =
     (case v of
        PyOther s \<Rightarrow> (Inl (Exception (''Attempting to set non-Point2D in Point2D property: '' @ s)), c)
      | PyPoint2D p \<Rightarrow>
          let point_string = to_bracket_string float_str p
          in set_property post d property_name point_string User c)"

section \<open>add_property.py: the setters of the synthesized properties\<close>

definition string_property_setter ::
  "'srv http \<Rightarrow> string \<Rightarrow> Data \<Rightarrow> string \<Rightarrow> 'srv Concept \<Rightarrow> (error + unit) \<times> 'srv Concept" where
  "string_property_setter post name d v c =
     (case set_property_raise_if_read_only d of
        Inl e \<Rightarrow> (Inl e, c)
      | Inr _ \<Rightarrow> set_string_property post d name v c)"

definition float_property_setter ::
  "(py_float \<Rightarrow> string) \<Rightarrow> 'srv http \<Rightarrow> string \<Rightarrow> Data \<Rightarrow> py_float \<Rightarrow> 'srv Concept
     \<Rightarrow> (error + unit) \<times> 'srv Concept" where
  "float_property_setter float_str post name d v c =
     (case set_property_raise_if_read_only d of
        Inl e \<Rightarrow> (Inl e, c)
      | Inr _ \<Rightarrow> set_float_property float_str post d name v c)"

definition bool_property_setter ::
  "'srv http \<Rightarrow> string \<Rightarrow> Data \<Rightarrow> bool \<Rightarrow> 'srv Concept \<Rightarrow> (error + unit) \<times> 'srv Concept" where
  "bool_property_setter post name d v c =
     (case set_property_raise_if_read_only d of
        Inl e \<Rightarrow> (Inl e, c)
      | Inr _ \<Rightarrow> set_bool_property post d name v c)"

definition bool_string_property_setter ::
  "'srv http \<Rightarrow> string \<Rightarrow> string \<Rightarrow> string \<Rightarrow> Data \<Rightarrow> bool \<Rightarrow> 'srv Concept
     \<Rightarrow> (error + unit) \<times> 'srv Concept" where
  "bool_string_property_setter post name true_value false_value d v c =
     (case set_property_raise_if_read_only d of
        Inl e \<Rightarrow> (Inl e, c)
      | Inr _ \<Rightarrow>
          let bool_value = v
          in if bool_value then set_string_property post d name true_value c
             else set_string_property post d name false_value c)"

definition point_property_setter ::
  "(py_float \<Rightarrow> string) \<Rightarrow> 'srv http \<Rightarrow> string \<Rightarrow> Data \<Rightarrow> py_object \<Rightarrow> 'srv Concept
     \<Rightarrow> (error + unit) \<times> 'srv Concept" where
  "point_property_setter float_str post name d v c = set_point2D_property float_str post d name v c"

section \<open>Notions of the specification and stand-ins for concrete runs\<close>

text \<open>
  A casing of a lower-case literal: the same letters, each in lower or in upper case.
\<close>

definition ascii_upper :: "char \<Rightarrow> char" where
  "ascii_upper c = (let n = (of_char c :: nat) in if 97 \<le> n \<and> n \<le> 122 then char_of (n - 32) else c)"

definition casing_of :: "string \<Rightarrow> string \<Rightarrow> bool" where
  "casing_of literal s = list_all2 (\<lambda>l c. c = l \<or> c = ascii_upper l) literal s"

text \<open>
  Stand-ins for running the definitions on concrete inputs: a process that answers every
  request with one fixed text, a fresh \<open>Concept\<close> object, and a \<open>float\<close> that knows
  the literal \<open>1.5\<close> only.
\<close>

definition stub_post :: "string \<Rightarrow> unit http" where
  "stub_post response srv request = (Inr response, srv)"

definition stub_concept :: "unit Concept" where
  "stub_concept = \<lparr>server = (), nextRequestId = 1, default_timeout_seconds = 3600, posted = []\<rparr>"

definition stub_float :: "string \<Rightarrow> error + py_float" where
  "stub_float s = (if s = ''1.5'' then Inr (Finite (3 / 2)) else Inl (ValueError s))"

section \<open>cad_layer.py, utilities.py and force_loading_layer.py: bulk creation\<close>















section \<open>Properties of the bracket parser\<close>

subsection \<open>Searching\<close>

lemma index_from_none: "index_from c xs p = - 1 \<longleftrightarrow> c \<notin> set xs"
  by (induction xs arbitrary: p) auto

lemma index_from_range:
  "index_from c xs p \<noteq> - 1 \<Longrightarrow> int p \<le> index_from c xs p \<and> index_from c xs p < int p + int (length xs)"
  by (induction xs arbitrary: p) (auto split: if_splits, force+)

lemma py_bound_nat: "p \<le> n \<Longrightarrow> py_bound n (int p) = p"
  by (simp add: py_bound_def)

lemma py_find_nat: "p \<le> length s \<Longrightarrow> py_find s c (int p) = index_from c (drop p s) p"
  by (simp add: py_find_def py_bound_nat)

lemma py_find_skip:
  "p < length s \<Longrightarrow> s ! p \<noteq> c \<Longrightarrow> py_find s c (int p) = py_find s c (int (Suc p))"
  using py_find_nat[of p s c] py_find_nat[of "Suc p" s c]
  by (simp add: Cons_nth_drop_Suc[symmetric])

lemma py_find_hit: "p < length s \<Longrightarrow> s ! p = c \<Longrightarrow> py_find s c (int p) = int p"
  using py_find_nat[of p s c] by (simp add: Cons_nth_drop_Suc[symmetric])

lemma py_find_range:
  "p \<le> length s \<Longrightarrow> py_find s c (int p) \<noteq> - 1 \<Longrightarrow>
     int p \<le> py_find s c (int p) \<and> py_find s c (int p) < int (length s)"
  using index_from_range[of c "drop p s" p] by (simp add: py_find_nat)

lemma balance_scan_no_end: "CHR '']'' \<notin> set xs \<Longrightarrow> balance_scan xs p l = - 1"
  by (induction xs arbitrary: p l) auto

lemma loop_scan:
  assumes "int (length s) \<le> sys_maxsize"
  shows "p \<le> length s \<Longrightarrow> matching_end_tag_loop s (int p) l = Some (balance_scan (drop p s) p l)"
proof (induction "length s - p" arbitrary: p l)
  case 0
  then have "p = length s" by simp
  then show ?case
    by (simp add: matching_end_tag_loop.simps matching_end_tag_step_def py_find_nat)
next
  case (Suc k)
  then have lt: "p < length s" and k: "k = length s - Suc p" by simp_all
  note [simp del] = of_nat_Suc
  have sc: "int p + 1 = int (Suc p)" by simp
  have dr: "drop p s = s ! p # drop (Suc p) s" using lt by (simp add: Cons_nth_drop_Suc)
  have IH: "\<And>l. matching_end_tag_loop s (int (Suc p)) l = Some (balance_scan (drop (Suc p) s) (Suc p) l)"
    using Suc.hyps(1)[OF k] lt by simp
  consider (op) "s ! p = CHR ''[''" | (cl) "s ! p = CHR '']''" | (ot) "s ! p \<noteq> CHR ''[''" "s ! p \<noteq> CHR '']''"
    by blast
  then show ?case
  proof cases
    case op
    have st: "py_find s START_TAG (int p) = int p" using lt op by (simp add: py_find_hit START_TAG_def)
    have en: "py_find s END_TAG (int p) = py_find s END_TAG (int (Suc p))"
      using lt op by (intro py_find_skip) (simp_all add: END_TAG_def)
    show ?thesis
    proof (cases "py_find s END_TAG (int (Suc p)) = - 1")
      case True
      have "index_from END_TAG (drop (Suc p) s) (Suc p) = - 1"
        using True lt py_find_nat[of "Suc p" s END_TAG] by simp
      then have "CHR '']'' \<notin> set (drop (Suc p) s)"
        by (simp add: index_from_none END_TAG_def)
      then have "balance_scan (drop (Suc p) s) (Suc p) (l + 1) = - 1" by (rule balance_scan_no_end)
      then show ?thesis using True st en op dr
        by (simp add: matching_end_tag_loop.simps[of s "int p"] matching_end_tag_step_def)
    next
      case False
      with py_find_range[of "Suc p" s END_TAG] lt
      have "int p < py_find s END_TAG (int (Suc p))" by simp
      then have "matching_end_tag_step s (int p) l = Continue (int p + 1) (l + 1)"
        using False st en by (simp add: matching_end_tag_step_def)
      then show ?thesis using IH[of "l + 1"] op dr
        by (simp add: matching_end_tag_loop.simps[of s "int p"] sc)
    qed
  next
    case cl
    have en: "py_find s END_TAG (int p) = int p" using lt cl by (simp add: py_find_hit END_TAG_def)
    have st: "py_find s START_TAG (int p) = py_find s START_TAG (int (Suc p))"
      using lt cl by (intro py_find_skip) (simp_all add: START_TAG_def)
    have nlt: "\<not> (if py_find s START_TAG (int (Suc p)) = - 1 then sys_maxsize else py_find s START_TAG (int (Suc p))) < int p"
      using py_find_range[of "Suc p" s START_TAG] lt assms by auto
    have "matching_end_tag_step s (int p) l = (if l - 1 = 0 then Return (int p) else Continue (int p + 1) (l - 1))"
      using en st nlt by (simp add: matching_end_tag_step_def Let_def)
    then show ?thesis using IH[of "l - 1"] cl dr
      by (simp add: matching_end_tag_loop.simps[of s "int p"] sc)
  next
    case ot
    have "py_find s START_TAG (int p) = py_find s START_TAG (int (Suc p))"
      using lt ot by (intro py_find_skip) (simp_all add: START_TAG_def)
    moreover have "py_find s END_TAG (int p) = py_find s END_TAG (int (Suc p))"
      using lt ot by (intro py_find_skip) (simp_all add: END_TAG_def)
    ultimately have "matching_end_tag_step s (int p) l = matching_end_tag_step s (int (Suc p)) l"
      by (simp add: matching_end_tag_step_def)
    then have "matching_end_tag_loop s (int p) l = matching_end_tag_loop s (int (Suc p)) l"
      by (simp add: matching_end_tag_loop.simps[of s "int p"] matching_end_tag_loop.simps[of s "int (Suc p)"])
    then show ?thesis using IH[of l] ot dr by simp
  qed
qed

lemma py_find_range_gen:
  assumes "py_find s c k \<noteq> - 1"
  shows "k \<le> py_find s c k \<and> 0 \<le> py_find s c k \<and> py_find s c k < int (length s)"
proof -
  let ?lo = "py_bound (length s) k"
  have r: "py_find s c k = index_from c (drop ?lo s) ?lo" by (simp add: py_find_def Let_def)
  with assms have ne: "index_from c (drop ?lo s) ?lo \<noteq> - 1" by simp
  from index_from_range[OF ne] have b: "int ?lo \<le> py_find s c k" "py_find s c k < int ?lo + int (length (drop ?lo s))"
    using r by simp_all
  have "drop ?lo s \<noteq> []" using ne by auto
  then have lt: "?lo < length s" by simp
  then have "k \<le> int ?lo" by (auto simp: py_bound_def split: if_splits)
  with b lt show ?thesis by auto
qed

lemma step_progress:
  assumes len: "int (length s) \<le> sys_maxsize"
    and st: "matching_end_tag_step s cur lvl = Continue cur' lvl'"
  shows "cur < cur' \<and> cur' \<le> int (length s)"
proof -
  let ?st = "py_find s START_TAG cur" and ?en = "py_find s END_TAG cur"
  from st have en: "?en \<noteq> - 1" by (auto simp: matching_end_tag_step_def Let_def split: if_splits)
  note E = py_find_range_gen[OF en]
  show ?thesis
  proof (cases "?st = - 1")
    case True
    with E len have "\<not> sys_maxsize < ?en" by simp
    with st True en have "cur' = ?en + 1"
      by (auto simp: matching_end_tag_step_def Let_def split: if_splits)
    with E show ?thesis by simp
  next
    case False
    note S = py_find_range_gen[OF False]
    from st False en have "cur' = ?st + 1 \<or> cur' = ?en + 1"
      by (auto simp: matching_end_tag_step_def Let_def split: if_splits)
    with E S show ?thesis by auto
  qed
qed

lemma balance_scan_range:
  "balance_scan xs p l \<noteq> - 1 \<Longrightarrow>
     int p \<le> balance_scan xs p l \<and> balance_scan xs p l < int p + int (length xs)"
proof (induction xs arbitrary: p l)
  case Nil then show ?case by simp
next
  case (Cons c cs)
  show ?case
  proof (cases "balance_scan (c # cs) p l = int p")
    case True then show ?thesis by simp
  next
    case False
    then obtain l' where eq: "balance_scan (c # cs) p l = balance_scan cs (Suc p) l'"
      by (auto split: if_splits)
    with Cons.prems Cons.IH[of "Suc p" l'] show ?thesis by simp
  qed
qed

lemma slice_start:
  assumes "0 \<le> i" "i < int (length s)" "s ! nat i = START_TAG"
  shows "py_slice s i (i + 1) = [START_TAG]"
proof -
  have a: "py_bound (length s) i = nat i" using assms by (simp add: py_bound_def)
  have b: "py_bound (length s) (i + 1) = nat i + 1" using assms by (auto simp: py_bound_def)
  have "take 1 (drop (nat i) s) = [s ! nat i]"
    using assms Cons_nth_drop_Suc[of "nat i" s] by (simp del: Cons_nth_drop_Suc) (metis take0 take_Suc_Cons One_nat_def nat_less_iff)
  then show ?thesis using assms a b by (simp add: py_slice_def)
qed

lemma met_scan:
  assumes "int (length s) \<le> sys_maxsize" "0 \<le> i" "i < int (length s)" "s ! nat i = START_TAG"
  shows "matching_end_tag_index s i = Some (Inr (balance_scan (drop (nat i + 1) s) (nat i + 1) 1))"
proof -
  have eq: "int (nat i + 1) = i + 1" using assms by simp
  have le: "nat i + 1 \<le> length s" using assms by simp
  have "matching_end_tag_loop s (i + 1) 1 = Some (balance_scan (drop (nat i + 1) s) (nat i + 1) 1)"
    using loop_scan[OF assms(1) le, of 1] unfolding eq .
  then show ?thesis using slice_start[OF assms(2-4)] by (simp add: matching_end_tag_index_def)
qed

lemma met_result:
  assumes "int (length s) \<le> sys_maxsize" "0 \<le> i" "i < int (length s)" "s ! nat i = START_TAG"
  shows "\<exists>r. matching_end_tag_index s i = Some (Inr r) \<and> (r = - 1 \<or> (i < r \<and> r < int (length s)))"
proof -
  let ?r = "balance_scan (drop (nat i + 1) s) (nat i + 1) 1"
  have "?r = - 1 \<or> (i < ?r \<and> ?r < int (length s))"
    using balance_scan_range[of "drop (nat i + 1) s" "nat i + 1" 1] assms by auto
  with met_scan[OF assms] show ?thesis by blast
qed

lemma balance_scan_neq: "balance_scan cs (Suc p) l \<noteq> int p"
  using balance_scan_range[of cs "Suc p" l] by (cases "balance_scan cs (Suc p) l = - 1") auto

lemma balance_scan_nth:
  "balance_scan xs p l \<noteq> - 1 \<Longrightarrow> xs ! (nat (balance_scan xs p l) - p) = CHR '']''"
proof (induction xs arbitrary: p l)
  case Nil then show ?case by simp
next
  case (Cons c cs)
  show ?case
  proof (cases "balance_scan (c # cs) p l = int p")
    case True
    then have "c = CHR '']''" using balance_scan_neq[of cs p] by (auto split: if_splits)
    with True show ?thesis by simp
  next
    case False
    then obtain l' where eq: "balance_scan (c # cs) p l = balance_scan cs (Suc p) l'"
      by (auto split: if_splits)
    with Cons.prems have ne: "balance_scan cs (Suc p) l' \<noteq> - 1" by simp
    from balance_scan_range[OF ne] have "int (Suc p) \<le> balance_scan cs (Suc p) l'" by simp
    then have "nat (balance_scan cs (Suc p) l') - p = Suc (nat (balance_scan cs (Suc p) l') - Suc p)"
      by linarith
    with Cons.IH[OF ne] eq show ?thesis by simp
  qed
qed

text \<open>
  C1. For a string \<open>s\<close> (no longer than \<open>sys.maxsize\<close>, as every Python string
  is) and an index \<open>i\<close> at which \<open>s\<close> has the opening delimiter,
  \<open>matching_end_tag_index(s, i)\<close> returns what nesting-depth counting gives from
  level 1 just past \<open>i\<close>: the index of the closing delimiter whose decrement first
  brings the level to zero, an index after \<open>i\<close> that holds a closing delimiter, and
  \<open>-1\<close> when the string ends before the level reaches zero.
\<close>

theorem matching_end_tag_index_balances:
  assumes "int (length s) \<le> sys_maxsize" "0 \<le> i" "i < int (length s)" "s ! nat i = START_TAG"
  shows "matching_end_tag_index s i = Some (Inr (balance_scan (drop (nat i + 1) s) (nat i + 1) 1))
       \<and> (balance_scan (drop (nat i + 1) s) (nat i + 1) 1 = - 1
          \<or> (i < balance_scan (drop (nat i + 1) s) (nat i + 1) 1
             \<and> balance_scan (drop (nat i + 1) s) (nat i + 1) 1 < int (length s)
             \<and> s ! nat (balance_scan (drop (nat i + 1) s) (nat i + 1) 1) = END_TAG))"
proof (cases "balance_scan (drop (nat i + 1) s) (nat i + 1) 1 = - 1")
  case True
  with met_scan[OF assms] show ?thesis by simp
next
  case False
  let ?r = "balance_scan (drop (nat i + 1) s) (nat i + 1) 1"
  from balance_scan_range[OF False] assms
  have r: "int (nat i + 1) \<le> ?r" "i < ?r" "?r < int (length s)" by simp_all
  define k where "k = nat ?r - (nat i + 1)"
  from balance_scan_nth[OF False] have c: "drop (nat i + 1) s ! k = CHR '']''" unfolding k_def .
  have e: "nat i + 1 + k = nat ?r" using r(1) unfolding k_def by linarith
  have "nat i + 1 \<le> length s" using assms by linarith
  then have "drop (nat i + 1) s ! k = s ! (nat i + 1 + k)" by (rule nth_drop)
  with c have "s ! nat ?r = END_TAG" unfolding e by (simp add: END_TAG_def)
  with met_scan[OF assms] r show ?thesis by simp
qed

theorem matching_end_tag_index_balances_witness:
  "int (length ''[[X]]'') \<le> sys_maxsize \<and> (0::int) \<le> 0 \<and> 0 < int (length ''[[X]]'')
     \<and> ''[[X]]'' ! nat 0 = START_TAG
     \<and> matching_end_tag_index ''[[X]]'' 0 = Some (Inr 4)
     \<and> matching_end_tag_index ''[[X]]'' 0 \<noteq> Some (Inr 2)
     \<and> ''[[X]]'' ! nat 4 = END_TAG"
  using matching_end_tag_index_balances [of "''[[X]]''" 0]
  by (simp add: sys_maxsize_def START_TAG_def END_TAG_def)

text \<open>
  C10. \<open>matching_end_tag_index\<close> terminates: every pass through the body of its
  scan loop that does not return strictly increases the scan index, which stays within the
  string; and from a start index at an opening delimiter the function returns, either
  \<open>-1\<close> or an index of the string after the start index.
\<close>

theorem matching_end_tag_index_terminates:
  assumes "int (length s) \<le> sys_maxsize" "0 \<le> i" "i < int (length s)" "s ! nat i = START_TAG"
  shows "(\<forall>cur lvl cur' lvl'. matching_end_tag_step s cur lvl = Continue cur' lvl'
            \<longrightarrow> cur < cur' \<and> cur' \<le> int (length s))
       \<and> (\<exists>r. matching_end_tag_index s i = Some (Inr r) \<and> (r = - 1 \<or> (i < r \<and> r < int (length s))))"
  using step_progress[OF assms(1)] met_result[OF assms] by blast

theorem matching_end_tag_index_terminates_witness:
  "int (length ''[a[b]'') \<le> sys_maxsize \<and> (0::int) \<le> 0 \<and> 0 < int (length ''[a[b]'')
     \<and> ''[a[b]'' ! nat 0 = START_TAG
     \<and> matching_end_tag_step ''[a[b]'' 1 1 = Continue 3 2
     \<and> (1::int) < 3 \<and> 3 \<le> int (length ''[a[b]'')
     \<and> (\<exists>r. matching_end_tag_index ''[a[b]'' 0 = Some (Inr r) \<and> (r = - 1 \<or> (0 < r \<and> r < int (length ''[a[b]''))))"
proof -
  have pre: "int (length ''[a[b]'') \<le> sys_maxsize" "(0::int) \<le> 0" "0 < int (length ''[a[b]'')"
    "''[a[b]'' ! nat 0 = START_TAG"
    by (simp_all add: sys_maxsize_def START_TAG_def)
  have step: "matching_end_tag_step ''[a[b]'' 1 1 = Continue 3 2"
    by (simp add: sys_maxsize_def START_TAG_def END_TAG_def matching_end_tag_step_def py_find_def py_bound_def)
  note inst = matching_end_tag_index_terminates [OF pre]
  from inst step have "(1::int) < 3 \<and> 3 \<le> int (length ''[a[b]'')" by blast
  with inst pre step show ?thesis by blast
qed

subsection \<open>Facts about nesting-depth counting and tokens\<close>

lemma balance_scan_shift:
  "balance_scan xs (p + q) l = (if balance_scan xs p l = - 1 then - 1 else balance_scan xs p l + int q)"
  by (induction xs arbitrary: p l) (simp_all flip: add_Suc)

lemma balance_scan_append:
  "balance_scan xs p l \<noteq> - 1 \<Longrightarrow> balance_scan (xs @ ys) p l = balance_scan xs p l"
  by (induction xs arbitrary: p l) (auto split: if_splits)

lemma balance_scan_take:
  "balance_scan xs p l \<noteq> - 1 \<Longrightarrow>
     balance_scan (take (nat (balance_scan xs p l) - p + 1) xs) p l = balance_scan xs p l"
proof (induction xs arbitrary: p l)
  case Nil then show ?case by simp
next
  case (Cons c cs)
  show ?case
  proof (cases "balance_scan (c # cs) p l = int p")
    case True
    then have "c = CHR '']'' \<and> l - 1 = 0" using balance_scan_neq[of cs p] by (auto split: if_splits)
    with True show ?thesis by simp
  next
    case False
    then obtain l' where eq: "balance_scan (c # cs) p l = balance_scan cs (Suc p) l'"
      and st: "\<And>zs. zs = [] \<or> balance_scan (c # zs) p l = balance_scan zs (Suc p) l'"
      by (auto split: if_splits)
    with Cons.prems have ne: "balance_scan cs (Suc p) l' \<noteq> - 1" by simp
    from balance_scan_range[OF ne] have "int (Suc p) \<le> balance_scan cs (Suc p) l'" by simp
    then have n: "nat (balance_scan cs (Suc p) l') - p = Suc (nat (balance_scan cs (Suc p) l') - Suc p)"
      by linarith
    let ?k = "nat (balance_scan cs (Suc p) l') - Suc p + 1"
    have "take (nat (balance_scan (c # cs) p l) - p + 1) (c # cs) = c # take ?k cs"
      using eq n by simp
    moreover have "balance_scan (c # take ?k cs) p l = balance_scan (take ?k cs) (Suc p) l'"
      using st[of "take ?k cs"] Cons.IH[OF ne] ne by auto
    ultimately show ?thesis using Cons.IH[OF ne] eq by simp
  qed
qed

lemma token_nonempty: "is_bracket_token t \<Longrightarrow> \<exists>cs. t = CHR ''['' # cs \<and> balance_scan cs 1 1 = int (length cs)"
  by (cases t) (auto simp: is_bracket_token_def)

lemma token_concat_hd: "token_concat xs \<Longrightarrow> xs \<noteq> [] \<Longrightarrow> hd xs = CHR ''[''"
proof -
  assume "token_concat xs" and ne: "xs \<noteq> []"
  then obtain ts where ts: "\<forall>t\<in>set ts. is_bracket_token t" "concat ts = xs" by blast
  with ne obtain t ts' where "ts = t # ts'" by (cases ts) auto
  with ts token_nonempty[of t] show ?thesis by auto
qed

lemma token_concat_split:
  assumes "token_concat xs" "xs \<noteq> []"
  shows "\<exists>t ys. xs = t @ ys \<and> is_bracket_token t \<and> token_concat ys"
proof -
  from assms obtain ts where ts: "\<forall>t\<in>set ts. is_bracket_token t" "concat ts = xs" by blast
  with assms(2) obtain t ts' where c: "ts = t # ts'" by (cases ts) auto
  with ts have "xs = t @ concat ts'" "is_bracket_token t" "\<forall>t\<in>set ts'. is_bracket_token t" by auto
  then show ?thesis by blast
qed

lemma token_concat_cons:
  assumes "is_bracket_token t" "token_concat ys"
  shows "token_concat (t @ ys)"
proof -
  from assms(2) obtain ts where ts: "\<forall>t\<in>set ts. is_bracket_token t" "concat ts = ys" by blast
  with assms(1) have "(\<forall>u\<in>set (t # ts). is_bracket_token u) \<and> concat (t # ts) = t @ ys" by simp
  then show ?thesis by blast
qed

lemma token_match:
  assumes "is_bracket_token t" "t @ ys = CHR ''['' # zs"
  shows "balance_scan zs 1 1 = int (length t) - 1"
proof -
  from token_nonempty[OF assms(1)] obtain cs where cs: "t = CHR ''['' # cs" "balance_scan cs 1 1 = int (length cs)"
    by blast
  with assms(2) have zs: "zs = cs @ ys" by simp
  have "balance_scan cs 1 1 \<noteq> - 1" using cs(2) by simp
  from balance_scan_append[OF this, of ys] cs zs show ?thesis by simp
qed

lemma token_take:
  assumes "balance_scan zs 1 1 \<noteq> - 1"
  shows "is_bracket_token (take (nat (balance_scan zs 1 1) + 1) (CHR ''['' # zs))"
proof -
  let ?r = "balance_scan zs 1 1"
  from balance_scan_range[OF assms] have r: "1 \<le> ?r" "?r < 1 + int (length zs)" by simp_all
  then have k: "nat ?r - 1 + 1 = nat ?r" by linarith
  from balance_scan_take[OF assms] k have "balance_scan (take (nat ?r) zs) 1 1 = ?r" by simp
  moreover have "length (take (nat ?r) zs) = nat ?r" using r by simp
  ultimately show ?thesis using r by (simp add: is_bracket_token_def)
qed

lemma token_concat_step:
  assumes ne: "balance_scan zs 1 1 \<noteq> - 1"
  shows "token_concat (CHR ''['' # zs) \<longleftrightarrow> token_concat (drop (nat (balance_scan zs 1 1)) zs)"
proof
  let ?r = "balance_scan zs 1 1"
  let ?xs = "CHR ''['' # zs"
  assume "token_concat ?xs"
  from token_concat_split[OF this] obtain t ys where t: "?xs = t @ ys" "is_bracket_token t" "token_concat ys"
    by blast
  from token_match[OF t(2) t(1)[symmetric]] have len: "int (length t) = ?r + 1" by simp
  then have "length t = nat ?r + 1" using balance_scan_range[OF ne] by linarith
  with t(1) have "ys = drop (nat ?r + 1) ?xs" by (metis append_eq_conv_conj)
  with t(3) show "token_concat (drop (nat ?r) zs)" by simp
next
  let ?r = "balance_scan zs 1 1"
  let ?xs = "CHR ''['' # zs"
  assume a: "token_concat (drop (nat ?r) zs)"
  have "drop (nat ?r + 1) ?xs = drop (nat ?r) zs" by simp
  with token_concat_cons[OF token_take[OF ne]] a
  have "token_concat (take (nat ?r + 1) ?xs @ drop (nat ?r + 1) ?xs)" by metis
  then show "token_concat ?xs" by (simp only: append_take_drop_id)
qed

lemma token_concat_no_match:
  assumes "balance_scan zs 1 1 = - 1"
  shows "\<not> token_concat (CHR ''['' # zs)"
proof
  assume "token_concat (CHR ''['' # zs)"
  from token_concat_split[OF this] obtain t ys where t: "CHR ''['' # zs = t @ ys" "is_bracket_token t"
    by blast
  from token_match[OF t(2) t(1)[symmetric]] assms have "t = []" by simp
  with t(2) show False by (simp add: is_bracket_token_def)
qed

lemma py_find_eq_iff:
  assumes "p < length s"
  shows "py_find s c (int p) = int p \<longleftrightarrow> s ! p = c"
proof (cases "s ! p = c")
  case True then show ?thesis using assms by (simp add: py_find_hit)
next
  case False
  have "py_find s c (int (Suc p)) \<noteq> int p"
    using py_find_range[of "Suc p" s c] assms by (cases "py_find s c (int (Suc p)) = - 1") auto
  with py_find_skip[OF assms False] False show ?thesis by simp
qed

subsection \<open>Validation and parsing\<close>

lemma token_concat_nil: "token_concat []"
  by (rule exI[of _ "[]"]) simp


lemma met_at:
  assumes len: "int (length s) \<le> sys_maxsize" and p: "p < length s" and sp: "s ! p = CHR ''[''"
  defines "r0 \<equiv> balance_scan (drop (Suc p) s) 1 1"
  shows "matching_end_tag_index s (int p) = Some (Inr (if r0 = - 1 then - 1 else r0 + int p))"
proof -
  have "matching_end_tag_index s (int p) = Some (Inr (balance_scan (drop (nat (int p) + 1) s) (nat (int p) + 1) 1))"
    using len p sp by (intro met_scan) (simp_all add: START_TAG_def)
  moreover have "balance_scan (drop (Suc p) s) (1 + p) 1 = (if r0 = - 1 then - 1 else r0 + int p)"
    unfolding r0_def by (rule balance_scan_shift)
  ultimately show ?thesis by simp
qed

lemma is_valid_loop_spec:
  assumes len: "int (length s) \<le> sys_maxsize"
  shows "p < length s \<Longrightarrow> s ! p = CHR ''['' \<Longrightarrow>
           is_valid_loop s (int p) = Some (Inr (token_concat (drop p s)))"
proof (induction "length s - p" arbitrary: p rule: less_induct)
  case less
  let ?zs = "drop (Suc p) s"
  let ?r0 = "balance_scan ?zs 1 1"
  have dr: "drop p s = CHR ''['' # ?zs" using less.prems by (simp add: Cons_nth_drop_Suc[symmetric])
  note met = met_at[OF len less.prems]
  show ?case
  proof (cases "?r0 = - 1")
    case True
    with met have "is_valid_loop s (int p) = Some (Inr False)"
      by (simp add: is_valid_loop.simps[of s "int p"])
    with token_concat_no_match[OF True] dr show ?thesis by simp
  next
    case False
    from balance_scan_range[OF False] have r: "1 \<le> ?r0" "?r0 \<le> int (length s) - int p - 1"
      using less.prems by simp_all
    define q where "q = nat ?r0 + p + 1"
    have q: "int q = ?r0 + int p + 1" "p < q" "q \<le> length s" using r by (simp_all add: q_def)
    have tc: "token_concat (drop p s) \<longleftrightarrow> token_concat (drop q s)"
      using token_concat_step[OF False] dr by (simp add: q_def add.commute)
    have unf: "is_valid_loop s (int p) =
        (if int q \<ge> int (length s) then Some (Inr True)
         else if py_find s START_TAG (int q) \<noteq> int q then Some (Inr False)
         else is_valid_loop s (int q))"
      using met False q(1) r(1)
      by (subst is_valid_loop.simps) (simp add: Let_def)
    show ?thesis
    proof (cases "q = length s")
      case True
      then have "token_concat (drop q s)" using token_concat_nil by simp
      with tc unf True show ?thesis by simp
    next
      case ne: False
      with q have lt: "q < length s" by simp
      show ?thesis
      proof (cases "s ! q = CHR ''[''")
        case True
        then have "py_find s START_TAG (int q) = int q" using lt by (simp add: py_find_hit START_TAG_def)
        with unf lt have "is_valid_loop s (int p) = is_valid_loop s (int q)" by simp
        moreover have "is_valid_loop s (int q) = Some (Inr (token_concat (drop q s)))"
          using less.hyps[of q] lt q True by simp
        ultimately show ?thesis using tc by simp
      next
        case False
        then have "py_find s START_TAG (int q) \<noteq> int q"
          using py_find_eq_iff[OF lt, of START_TAG] by (simp add: START_TAG_def)
        with unf lt have "is_valid_loop s (int p) = Some (Inr False)" by simp
        moreover have "\<not> token_concat (drop q s)"
        proof
          assume a: "token_concat (drop q s)"
          have "drop q s \<noteq> []" using lt by simp
          from token_concat_hd[OF a this] have "s ! q = CHR ''[''" using lt by (simp add: hd_drop_conv_nth)
          with False show False by simp
        qed
        ultimately show ?thesis using tc by simp
      qed
    qed
  qed
qed

lemma py_slice_nat:
  "a \<le> length s \<Longrightarrow> b \<le> length s \<Longrightarrow> py_slice s (int a) (int b) = take (b - a) (drop a s)"
  by (simp add: py_slice_def py_bound_nat)

lemma is_valid_loop_unfold:
  assumes len: "int (length s) \<le> sys_maxsize" and p: "p < length s" and sp: "s ! p = CHR ''[''"
    and ne: "balance_scan (drop (Suc p) s) 1 1 \<noteq> - 1"
    and q: "q = nat (balance_scan (drop (Suc p) s) 1 1) + p + 1"
  shows "is_valid_loop s (int p) =
        (if int q \<ge> int (length s) then Some (Inr True)
         else if py_find s START_TAG (int q) \<noteq> int q then Some (Inr False)
         else is_valid_loop s (int q))"
proof -
  from balance_scan_range[OF ne] have r: "1 \<le> balance_scan (drop (Suc p) s) 1 1" by simp
  then have "int q = balance_scan (drop (Suc p) s) 1 1 + int p + 1" using q by simp
  then show ?thesis using met_at[OF len p sp] ne r
    by (subst is_valid_loop.simps) (simp add: Let_def)
qed

lemma parse_loop_spec:
  assumes len: "int (length s) \<le> sys_maxsize"
  shows "p \<le> length s \<Longrightarrow>
         (p < length s \<Longrightarrow> s ! p = CHR ''['' \<and> is_valid_loop s (int p) = Some (Inr True)) \<Longrightarrow>
         \<exists>ts. parse_loop \<lparr>parse_string = s, current_position = int p\<rparr> acc = Some (Inr (acc @ ts))
              \<and> encode_tokens ts = drop p s"
proof (induction "length s - p" arbitrary: p acc rule: less_induct)
  case less
  show ?case
  proof (cases "p = length s")
    case True
    then have "has_next_token \<lparr>parse_string = s, current_position = int p\<rparr> = Some (Inr False)"
      by (simp add: has_next_token_def)
    then have "parse_loop \<lparr>parse_string = s, current_position = int p\<rparr> acc = Some (Inr (acc @ []))"
      by (subst parse_loop.simps) simp
    moreover have "encode_tokens [] = drop p s" using True by (simp add: encode_tokens_def)
    ultimately show ?thesis by blast
  next
    case False
    with less.prems have p: "p < length s" and sp: "s ! p = CHR ''[''"
      and v: "is_valid_loop s (int p) = Some (Inr True)" by simp_all
    let ?zs = "drop (Suc p) s"
    let ?r0 = "balance_scan ?zs 1 1"
    note met = met_at[OF len p sp]
    have ne: "?r0 \<noteq> - 1"
    proof
      assume "?r0 = - 1"
      with met have "is_valid_loop s (int p) = Some (Inr False)"
        by (simp add: is_valid_loop.simps[of s "int p"])
      with v show False by simp
    qed
    from balance_scan_range[OF ne] have r: "1 \<le> ?r0" "?r0 \<le> int (length s) - int p - 1"
      using p by simp_all
    define q where "q = nat ?r0 + p + 1"
    have q: "int q = ?r0 + int p + 1" "p < q" "q \<le> length s" "Suc p < q" using r by (simp_all add: q_def)
    note unf = is_valid_loop_unfold[OF len p sp ne q_def]
    have vq: "q < length s \<Longrightarrow> s ! q = CHR ''['' \<and> is_valid_loop s (int q) = Some (Inr True)"
    proof -
      assume lt: "q < length s"
      with unf v have a: "py_find s START_TAG (int q) = int q" and b: "is_valid_loop s (int q) = Some (Inr True)"
        by (auto split: if_splits)
      from a py_find_eq_iff[OF lt, of START_TAG] b show ?thesis by (simp add: START_TAG_def)
    qed
    have metq: "matching_end_tag_index s (int p) = Some (Inr (int q - 1))"
      using met ne q(1) by simp
    have fp: "py_find s START_TAG (int p) = int p" using p sp by (simp add: py_find_hit START_TAG_def)
    have hn: "has_next_token \<lparr>parse_string = s, current_position = int p\<rparr> = Some (Inr True)"
      using p fp metq q by (simp add: has_next_token_def)
    define tok where "tok = py_slice s (int p + 1) (int q - 1)"
    have nt: "next_token \<lparr>parse_string = s, current_position = int p\<rparr>
                = Some (Inr (tok, \<lparr>parse_string = s, current_position = int q\<rparr>))"
      using fp metq q by (simp add: next_token_def tok_def Let_def)
    have step: "parse_loop \<lparr>parse_string = s, current_position = int p\<rparr> acc
                 = parse_loop \<lparr>parse_string = s, current_position = int q\<rparr> (acc @ [tok])"
      using hn nt by (subst parse_loop.simps) simp
    from less.hyps[of q "acc @ [tok]"] q vq p
    obtain ts where ts: "parse_loop \<lparr>parse_string = s, current_position = int q\<rparr> (acc @ [tok])
                           = Some (Inr ((acc @ [tok]) @ ts))" "encode_tokens ts = drop q s"
      by (metis diff_less_mono2)
    define zs where "zs = drop (Suc p) s"
    define k where "k = nat (balance_scan (drop (Suc p) s) 1 1)"
    have k: "1 \<le> k" "k \<le> length zs" "q = k + p + 1" using r p by (simp_all add: k_def zs_def q_def)
    have e1: "int p + 1 = int (Suc p)" by simp
    have e2: "int q - 1 = int (q - 1)" using q(2) by simp
    have "tok = py_slice s (int (Suc p)) (int (q - 1))" unfolding tok_def e1 e2 ..
    also have "\<dots> = take (q - 1 - Suc p) (drop (Suc p) s)" using p q by (intro py_slice_nat) simp_all
    finally have tok: "tok = take (k - 1) zs" using k by (simp add: zs_def)
    have i: "k - 1 < length zs" using k by simp
    have "int 1 \<le> balance_scan (drop (Suc p) s) 1 1" using r by simp
    then have "nat (balance_scan (drop (Suc p) s) 1 1) - 1 = k - 1" by (simp add: k_def)
    with balance_scan_nth[OF ne] have nth: "zs ! (k - 1) = CHR '']''" by (simp add: zs_def)
    have sk: "Suc (k - 1) = k" using k by simp
    have "zs = take (k - 1) zs @ zs ! (k - 1) # drop (Suc (k - 1)) zs" by (rule id_take_nth_drop[OF i])
    then have A: "zs = tok @ CHR '']'' # drop k zs" unfolding sk nth tok[symmetric] .
    have B: "drop k zs = drop q s" using k by (simp add: zs_def)
    have C: "drop p s = CHR ''['' # zs" using p sp by (simp add: zs_def Cons_nth_drop_Suc[symmetric])
    have "drop p s = CHR ''['' # tok @ CHR '']'' # drop q s" using A B C by simp
    with ts(2) have "encode_tokens (tok # ts) = drop p s" by (simp add: encode_tokens_def)
    with step ts(1) show ?thesis by (intro exI[of _ "tok # ts"]) simp
  qed
qed

text \<open>
  C7. \<open>is_valid_parse_string\<close> accepts exactly the strings that are a (possibly
  empty) concatenation of bracket tokens, each starting where the one before it ended,
  with nothing else: it returns whether its argument is such a concatenation.
\<close>

theorem is_valid_parse_string_token_concat:
  assumes "int (length s) \<le> sys_maxsize"
  shows "is_valid_parse_string s
           = Some (Inr (\<exists>ts. (\<forall>t\<in>set ts. is_bracket_token t) \<and> concat ts = s))"
proof (cases "s = []")
  case True
  then show ?thesis using token_concat_nil by (simp add: is_valid_parse_string_def)
next
  case False
  then have lt: "0 < length s" by simp
  show ?thesis
  proof (cases "s ! 0 = CHR ''[''")
    case True
    then have "py_find s START_TAG 0 = 0" using py_find_hit[OF lt, of START_TAG] by (simp add: START_TAG_def)
    with False have "is_valid_parse_string s = is_valid_loop s 0" by (simp add: is_valid_parse_string_def)
    with is_valid_loop_spec[OF assms lt True] show ?thesis by simp
  next
    case nb: False
    then have "py_find s START_TAG 0 \<noteq> 0" using py_find_eq_iff[OF lt, of START_TAG] by (simp add: START_TAG_def)
    with False have "is_valid_parse_string s = Some (Inr False)" by (simp add: is_valid_parse_string_def)
    moreover have "\<not> token_concat s"
    proof
      assume a: "token_concat s"
      from token_concat_hd[OF a False] nb False show False by (simp add: hd_conv_nth)
    qed
    ultimately show ?thesis by simp
  qed
qed

theorem is_valid_parse_string_token_concat_witness:
  "int (length ''[A][B]'') \<le> sys_maxsize
     \<and> is_valid_parse_string ''[A][B]'' = Some (Inr True)
     \<and> (\<exists>ts. list_all is_bracket_token ts \<and> concat ts = ''[A][B]'')
     \<and> is_valid_parse_string [] = Some (Inr True)
     \<and> is_valid_parse_string ''[A]'' = Some (Inr True)
     \<and> is_valid_parse_string ''[A][B]extra'' = Some (Inr False)
     \<and> is_valid_parse_string ''A]'' = Some (Inr False)"
proof -
  have len: "int (length ''[A][B]'') \<le> sys_maxsize" by (simp add: sys_maxsize_def)
  have ev: "is_valid_parse_string ''[A][B]'' = Some (Inr True)" by code_simp
  from is_valid_parse_string_token_concat [OF len] ev
  have "\<exists>ts. (\<forall>t\<in>set ts. is_bracket_token t) \<and> concat ts = ''[A][B]''" by simp
  then have "\<exists>ts. list_all is_bracket_token ts \<and> concat ts = ''[A][B]''"
    by (simp only: list_all_iff)
  moreover have "is_valid_parse_string [] = Some (Inr True)" by code_simp
  moreover have "is_valid_parse_string ''[A]'' = Some (Inr True)" by code_simp
  moreover have "is_valid_parse_string ''[A][B]extra'' = Some (Inr False)" by code_simp
  moreover have "is_valid_parse_string ''A]'' = Some (Inr False)" by code_simp
  ultimately show ?thesis using len ev by blast
qed

text \<open>
  C2. For a string that \<open>is_valid_parse_string\<close> accepts, \<open>parse\<close> returns a
  token list, and writing \<open>'[' + t + ']'\<close> for each of its tokens in order gives the
  string back.
\<close>

theorem parse_encode_roundtrip:
  assumes len: "int (length s) \<le> sys_maxsize" and v: "is_valid_parse_string s = Some (Inr True)"
  shows "\<exists>ts. parse s = Some (Inr ts) \<and> encode_tokens ts = s"
proof -
  have "0 < length s \<Longrightarrow> s ! 0 = CHR ''['' \<and> is_valid_loop s (int 0) = Some (Inr True)"
  proof -
    assume lt: "0 < length s"
    with v have a: "py_find s START_TAG 0 = 0" and b: "is_valid_loop s 0 = Some (Inr True)"
      by (auto simp: is_valid_parse_string_def split: if_splits)
    from a py_find_eq_iff[OF lt, of START_TAG] b show ?thesis by (simp add: START_TAG_def)
  qed
  from parse_loop_spec[OF len _ this, of "[]"]
  obtain ts where "parse_loop \<lparr>parse_string = s, current_position = 0\<rparr> [] = Some (Inr ts)" "encode_tokens ts = s"
    by auto
  then show ?thesis using v by (simp add: parse_def BracketParser_init_def)
qed

theorem parse_encode_roundtrip_witness:
  "int (length ''[A][[B1][B2]]'') \<le> sys_maxsize
     \<and> is_valid_parse_string ''[A][[B1][B2]]'' = Some (Inr True)
     \<and> parse ''[A][[B1][B2]]'' = Some (Inr [''A'', ''[B1][B2]''])
     \<and> (\<exists>ts. parse ''[A][[B1][B2]]'' = Some (Inr ts) \<and> encode_tokens ts = ''[A][[B1][B2]]'')"
proof -
  have len: "int (length ''[A][[B1][B2]]'') \<le> sys_maxsize" by (simp add: sys_maxsize_def)
  have ev: "is_valid_parse_string ''[A][[B1][B2]]'' = Some (Inr True)" by code_simp
  have p: "parse ''[A][[B1][B2]]'' = Some (Inr [''A'', ''[B1][B2]''])" by code_simp
  from parse_encode_roundtrip [OF len ev] len ev p show ?thesis by blast
qed

section \<open>Properties of the conversions and the command channel\<close>

lemma parse_floats_loop_all2:
  "list_all2 (\<lambda>t v. user_str_to_API_float F t = Inr v) ts vs \<Longrightarrow>
     parse_floats_loop F ts acc = Inr (acc @ vs)"
  by (induction ts vs arbitrary: acc rule: list_all2_induct) simp_all


lemma of_char_lt: "(of_char c :: nat) < 256"
  by simp

lemma lower_char_eq:
  assumes "97 \<le> (of_char l :: nat)" "(of_char l :: nat) \<le> 122"
  shows "lower_char c = l \<longleftrightarrow> c = l \<or> c = ascii_upper l"
proof -
  define n where "n = (of_char c :: nat)"
  define m where "m = (of_char l :: nat)"
  have n: "n < 256" unfolding n_def by (rule of_char_lt)
  have c: "c = char_of n" unfolding n_def by simp
  have l: "l = char_of m" unfolding m_def by simp
  have m: "97 \<le> m" "m \<le> 122" using assms by (simp_all add: m_def)
  have up: "ascii_upper l = char_of (m - 32)" using m by (simp add: ascii_upper_def m_def)
  have lo: "lower_char c = (if (65 \<le> n \<and> n \<le> 90) \<or> (192 \<le> n \<and> n \<le> 222 \<and> n \<noteq> 215) then char_of (n + 32) else char_of n)"
    by (simp add: lower_char_def n_def Let_def)
  have eq: "\<And>a b. a < 256 \<Longrightarrow> b < 256 \<Longrightarrow> (char_of a = (char_of b :: char)) = (a = (b::nat))"
    by simp
  show ?thesis unfolding up lo unfolding c l using n m
    by (auto simp del: char_of_quasi_inj simp: eq)
qed

lemma str_lower_eq:
  "(\<forall>l\<in>set literal. 97 \<le> (of_char l :: nat) \<and> (of_char l :: nat) \<le> 122) \<Longrightarrow>
     str_lower s = literal \<longleftrightarrow> casing_of literal s"
proof (induction literal arbitrary: s)
  case Nil
  then show ?case by (simp add: str_lower_def casing_of_def)
next
  case (Cons l ls)
  show ?case
  proof (cases s)
    case Nil then show ?thesis by (simp add: str_lower_def casing_of_def)
  next
    case (Cons c cs)
    have "str_lower cs = ls \<longleftrightarrow> casing_of ls cs" using Cons.IH Cons.prems by simp
    moreover have "lower_char c = l \<longleftrightarrow> c = l \<or> c = ascii_upper l"
      using Cons.prems by (intro lower_char_eq) simp_all
    ultimately show ?thesis using Cons by (simp add: str_lower_def casing_of_def)
  qed
qed

lemma lower_true: "str_lower s = ''true'' \<longleftrightarrow> casing_of ''true'' s"
  by (rule str_lower_eq) simp

lemma lower_false: "str_lower s = ''false'' \<longleftrightarrow> casing_of ''false'' s"
  by (rule str_lower_eq) simp


lemma py_slice_tail: "length p = 10 \<Longrightarrow> py_slice (p @ rest) 10 (- 1) = butlast rest"
  by (cases rest rule: rev_cases) (auto simp: py_slice_def py_bound_def)

lemma py_slice_take: "py_slice r 0 10 = take 10 r"
  by (simp add: py_slice_def py_bound_def min_def)


lemma snd_Concept_command_posted:
  "posted (snd (Concept_command post cmd t c))
     = posted c @ [\<lparr>RequestId = nextRequestId c, body = cmd,
                     timeout = (case t of None \<Rightarrow> default_timeout_seconds c | Some t \<Rightarrow> t)\<rparr>]"
  by (simp add: Concept_command_def Let_def split: prod.splits sum.splits)



text \<open>
  C9. \<open>parse_floats\<close> tokenizes its input and converts each token: when
  \<open>parse\<close> gives the tokens \<open>ts\<close> and each converts, the result is the list of the
  converted values. The token \<open>infinite\<close> converts to the largest finite float and
  \<open>-infinite\<close> to its negation, whatever \<open>float\<close> does on other strings.
\<close>

theorem parse_floats_sentinels:
  assumes "parse s = Some (Inr ts)" "list_all2 (\<lambda>t v. user_str_to_API_float F t = Inr v) ts vs"
  shows "parse_floats F s = Some (Inr vs)
       \<and> user_str_to_API_float F ''infinite'' = Inr (Finite float_info_max)
       \<and> user_str_to_API_float F ''-infinite'' = Inr (Finite (- float_info_max))"
  using assms parse_floats_loop_all2[OF assms(2), of "[]"]
  by (simp add: parse_floats_def user_str_to_API_float_def)

theorem parse_floats_sentinels_witness:
  "parse ''[1.5][infinite][-infinite]'' = Some (Inr [''1.5'', ''infinite'', ''-infinite''])
   \<and> list_all2 (\<lambda>t v. user_str_to_API_float stub_float t = Inr v) [''1.5'', ''infinite'', ''-infinite'']
        [Finite (3 / 2), Finite float_info_max, Finite (- float_info_max)]
   \<and> parse_floats stub_float ''[1.5][infinite][-infinite]''
        = Some (Inr [Finite (3 / 2), Finite float_info_max, Finite (- float_info_max)])
   \<and> Finite float_info_max \<noteq> PosInf"
proof -
  have p: "parse ''[1.5][infinite][-infinite]'' = Some (Inr [''1.5'', ''infinite'', ''-infinite''])"
    by code_simp
  have l: "list_all2 (\<lambda>t v. user_str_to_API_float stub_float t = Inr v) [''1.5'', ''infinite'', ''-infinite'']
        [Finite (3 / 2), Finite float_info_max, Finite (- float_info_max)]"
    by (simp add: user_str_to_API_float_def stub_float_def)
  from parse_floats_sentinels [OF p l] p l show ?thesis by simp
qed

text \<open>
  C8. For every property name, when the process answers the read of a bool property with
  the raw string \<open>raw\<close>, \<open>_get_bool_property\<close> returns \<open>True\<close> if \<open>raw\<close> is a
  casing of \<open>true\<close>, \<open>False\<close> if it is a casing of \<open>false\<close>, and otherwise raises
  the exception \<open>Unexpected bool string: raw\<close>.
\<close>

theorem get_bool_property_case_insensitive:
  assumes "get_property post d property_name Internal c = (Inr raw, c')"
  shows "get_bool_property post d property_name c =
           (if casing_of ''true'' raw then Inr True
            else if casing_of ''false'' raw then Inr False
            else Inl (Exception (''Unexpected bool string: '' @ raw)), c')"
  using assms by (simp add: get_bool_property_def lower_true lower_false)

theorem get_bool_property_case_insensitive_witness:
  "fst (get_property (stub_post ''[SUCCESS][TrUe]'') \<lparr>uid = 7, read_only = False, class_name = ''Beam''\<rparr>
          ''Mitered'' Internal stub_concept) = Inr ''TrUe''
   \<and> fst (get_bool_property (stub_post ''[SUCCESS][TrUe]'') \<lparr>uid = 7, read_only = False, class_name = ''Beam''\<rparr>
          ''Mitered'' stub_concept) = Inr True
   \<and> fst (get_property (stub_post ''[SUCCESS][maybe]'') \<lparr>uid = 7, read_only = False, class_name = ''Beam''\<rparr>
          ''Mitered'' Internal stub_concept) = Inr ''maybe''
   \<and> fst (get_bool_property (stub_post ''[SUCCESS][maybe]'') \<lparr>uid = 7, read_only = False, class_name = ''Beam''\<rparr>
          ''Mitered'' stub_concept) = Inl (Exception ''Unexpected bool string: maybe'')"
proof -
  let ?d = "\<lparr>uid = 7, read_only = False, class_name = ''Beam''\<rparr>"
  obtain c1 where g1: "get_property (stub_post ''[SUCCESS][TrUe]'') ?d ''Mitered'' Internal stub_concept = (Inr ''TrUe'', c1)"
    by (simp add: get_property_def Data_command_def Model_command_def Concept_command_def stub_post_def
        py_slice_def py_bound_def Let_def)
  obtain c2 where g2: "get_property (stub_post ''[SUCCESS][maybe]'') ?d ''Mitered'' Internal stub_concept = (Inr ''maybe'', c2)"
    by (simp add: get_property_def Data_command_def Model_command_def Concept_command_def stub_post_def
        py_slice_def py_bound_def Let_def)
  have t: "casing_of ''true'' ''TrUe''" by code_simp
  have m: "\<not> casing_of ''true'' ''maybe''" "\<not> casing_of ''false'' ''maybe''" by code_simp+
  from get_bool_property_case_insensitive [OF g1] get_bool_property_case_insensitive [OF g2] g1 g2 t m
  show ?thesis by simp
qed

text \<open>
  C5, as the code has it. For a response text \<open>r\<close> of a round trip, one of three
  outcomes, by the first ten characters: after \<open>[SUCCESS][\<close> the call returns the rest
  of \<open>r\<close> without its last character; after \<open>[FAILURE][\<close> it raises an exception whose
  message is \<open>Error: \<close> followed by the rest of \<open>r\<close> without its last character;
  otherwise it raises an exception whose message ends with \<open>r\<close> itself.
\<close>

theorem command_envelope:
  assumes "post (server c) \<lparr>RequestId = nextRequestId c, body = cmd,
              timeout = (case t of None \<Rightarrow> default_timeout_seconds c | Some t \<Rightarrow> t)\<rparr> = (Inr r, srv')"
  shows "(r = ''[SUCCESS]['' @ rest \<longrightarrow> fst (Concept_command post cmd t c) = Inr (butlast rest))
       \<and> (r = ''[FAILURE]['' @ rest \<longrightarrow>
            fst (Concept_command post cmd t c) = Inl (Exception (''Error: '' @ butlast rest)))
       \<and> (take 10 r \<noteq> ''[SUCCESS]['' \<and> take 10 r \<noteq> ''[FAILURE]['' \<longrightarrow>
            fst (Concept_command post cmd t c)
              = Inl (Exception (''Internal Error: Invalid result returned from Concept process: '' @ r)))"
proof (intro conjI impI)
  assume r: "r = ''[SUCCESS]['' @ rest"
  have "py_slice r 0 10 = ''[SUCCESS]['' " unfolding r py_slice_take by simp
  moreover have "py_slice r 10 (- 1) = butlast rest" unfolding r by (rule py_slice_tail) simp
  ultimately show "fst (Concept_command post cmd t c) = Inr (butlast rest)"
    using assms by (simp add: Concept_command_def Let_def)
next
  assume r: "r = ''[FAILURE]['' @ rest"
  have "py_slice r 0 10 = ''[FAILURE]['' " unfolding r py_slice_take by simp
  moreover have "py_slice r 10 (- 1) = butlast rest" unfolding r by (rule py_slice_tail) simp
  ultimately show "fst (Concept_command post cmd t c) = Inl (Exception (''Error: '' @ butlast rest))"
    using assms by (simp add: Concept_command_def Let_def)
next
  assume "take 10 r \<noteq> ''[SUCCESS]['' \<and> take 10 r \<noteq> ''[FAILURE]['' "
  then show "fst (Concept_command post cmd t c)
              = Inl (Exception (''Internal Error: Invalid result returned from Concept process: '' @ r))"
    using assms by (simp add: Concept_command_def Let_def py_slice_take)
qed

theorem command_envelope_witness:
  "stub_post ''[SUCCESS][PONG]'' (server stub_concept)
       \<lparr>RequestId = nextRequestId stub_concept, body = ''[PING]'', timeout = default_timeout_seconds stub_concept\<rparr>
     = (Inr ''[SUCCESS][PONG]'', ())
   \<and> fst (Concept_command (stub_post ''[SUCCESS][PONG]'') ''[PING]'' None stub_concept) = Inr ''PONG''
   \<and> fst (Concept_command (stub_post ''[FAILURE][no model]'') ''[PING]'' None stub_concept)
       = Inl (Exception ''Error: no model'')
   \<and> fst (Concept_command (stub_post ''PONG'') ''[PING]'' None stub_concept)
       = Inl (Exception ''Internal Error: Invalid result returned from Concept process: PONG'')"
proof -
  note ok = command_envelope [where post = "stub_post ''[SUCCESS][PONG]''" and c = stub_concept
      and cmd = "''[PING]''" and t = None and r = "''[SUCCESS][PONG]''" and srv' = "()" and rest = "''PONG]''"]
  note ko = command_envelope [where post = "stub_post ''[FAILURE][no model]''" and c = stub_concept
      and cmd = "''[PING]''" and t = None and r = "''[FAILURE][no model]''" and srv' = "()" and rest = "''no model]''"]
  note no = command_envelope [where post = "stub_post ''PONG''" and c = stub_concept
      and cmd = "''[PING]''" and t = None and r = "''PONG''" and srv' = "()" and rest = "[]"]
  from ok ko no show ?thesis by (simp add: stub_post_def)
qed

text \<open>
  The claim C5 as it is written gives the exception of the failure envelope the inner
  payload as its message. The code puts \<open>Error: \<close> before it.
\<close>

theorem command_failure_message_counterexample:
  "fst (Concept_command (stub_post ''[FAILURE][boom]'') ''[PING]'' None stub_concept) = Inl (Exception ''Error: boom'')
   \<and> py_slice ''[FAILURE][boom]'' 10 (- 1) = ''boom''
   \<and> fst (Concept_command (stub_post ''[FAILURE][boom]'') ''[PING]'' None stub_concept) \<noteq> Inl (Exception ''boom'')"
  by (simp add: Concept_command_def stub_post_def stub_concept_def py_slice_def py_bound_def Let_def)

text \<open>
  C6. A property write whose value string holds an opening or a closing delimiter raises
  the exception of the validation and leaves the \<open>Concept\<close> object and the process as
  they were: no request is posted. A value with neither delimiter passes the validation,
  and the write posts its one command.
\<close>

theorem set_property_rejects_delimiters:
  "(CHR ''['' \<in> set v \<longrightarrow>
      set_property post d name v units c = (Inl (Exception ''String property values cannot contain '['.''), c))
   \<and> (CHR ''['' \<notin> set v \<and> CHR '']'' \<in> set v \<longrightarrow>
      set_property post d name v units c = (Inl (Exception ''String property values cannot contain ']'.''), c))
   \<and> (CHR ''['' \<notin> set v \<and> CHR '']'' \<notin> set v \<longrightarrow>
      raise_if_invalid_string_property_value v = Inr ()
      \<and> posted (snd (set_property post d name v units c))
          = posted c @ [\<lparr>RequestId = nextRequestId c,
                          body = ''[WITH_TARGET]['' @ str_int (uid d) @ ''][[''
                                   @ (if units = Internal then ''SET_PROP_INTERNAL'' else ''SET_PROP_USER'')
                                   @ ''][''  @ name @ ''][''  @ v @ '']]'',
                          timeout = default_timeout_seconds c\<rparr>])"
proof (intro conjI impI)
  assume "CHR ''['' \<in> set v"
  then show "set_property post d name v units c = (Inl (Exception ''String property values cannot contain '['.''), c)"
    by (simp add: set_property_def raise_if_invalid_string_property_value_def)
next
  assume "CHR ''['' \<notin> set v \<and> CHR '']'' \<in> set v"
  then show "set_property post d name v units c = (Inl (Exception ''String property values cannot contain ']'.''), c)"
    by (simp add: set_property_def raise_if_invalid_string_property_value_def)
next
  assume a: "CHR ''['' \<notin> set v \<and> CHR '']'' \<notin> set v"
  then show "raise_if_invalid_string_property_value v = Inr ()"
    by (simp add: raise_if_invalid_string_property_value_def)
  let ?cmd = "''['' @ (if units = Internal then ''SET_PROP_INTERNAL'' else ''SET_PROP_USER'') @ ''][''  @ name @ ''][''  @ v @ '']''"
  have "snd (set_property post d name v units c) = snd (Data_command post d ?cmd c)"
    using a by (simp add: set_property_def raise_if_invalid_string_property_value_def Let_def split: prod.splits sum.splits)
  then show "posted (snd (set_property post d name v units c))
          = posted c @ [\<lparr>RequestId = nextRequestId c,
                          body = ''[WITH_TARGET]['' @ str_int (uid d) @ ''][[''
                                   @ (if units = Internal then ''SET_PROP_INTERNAL'' else ''SET_PROP_USER'')
                                   @ ''][''  @ name @ ''][''  @ v @ '']]'',
                          timeout = default_timeout_seconds c\<rparr>]"
    by (simp add: Data_command_def Model_command_def snd_Concept_command_posted Let_def)
qed

theorem set_property_rejects_delimiters_witness:
  "set_property (stub_post ''[SUCCESS][]'') \<lparr>uid = 7, read_only = False, class_name = ''Beam''\<rparr> ''Name'' ''a[b'' Internal stub_concept
     = (Inl (Exception ''String property values cannot contain '['.''), stub_concept)
   \<and> posted (snd (set_property (stub_post ''[SUCCESS][]'') \<lparr>uid = 7, read_only = False, class_name = ''Beam''\<rparr> ''Name'' ''abc'' Internal stub_concept))
     = [\<lparr>RequestId = 1, body = ''[WITH_TARGET][7][[SET_PROP_INTERNAL][Name][abc]]'', timeout = 3600\<rparr>]"
  using set_property_rejects_delimiters [of "''a[b''" "stub_post ''[SUCCESS][]''" "\<lparr>uid = 7, read_only = False, class_name = ''Beam''\<rparr>" "''Name''" Internal stub_concept]
    set_property_rejects_delimiters [of "''abc''" "stub_post ''[SUCCESS][]''" "\<lparr>uid = 7, read_only = False, class_name = ''Beam''\<rparr>" "''Name''" Internal stub_concept]
  by (simp add: stub_concept_def str_int_def)

text \<open>
  C3, at the input where the code leaves it. The setter that \<open>_point_property\<close>
  synthesizes does not look at the read-only flag: on a read-only entity and a
  \<open>Point2D\<close> it goes on to encode the point and fails in the validation of the encoded
  string. The setters of string, float, bool and bool-as-string properties raise the
  read-only exception on the same entity, which is another exception; none of the five
  changes the \<open>Concept\<close> object, so none posts a request.
\<close>

theorem point_property_setter_no_read_only_check:
  "point_property_setter float_str post name (d\<lparr>read_only := True\<rparr>) (PyPoint2D p) c
     = (Inl (Exception ''String property values cannot contain '['.''), c)
   \<and> string_property_setter post name (d\<lparr>read_only := True\<rparr>) v c
     = (Inl (Exception (''Cannot set properties of read-only '' @ class_name d @ ''.'')), c)
   \<and> float_property_setter float_str post name (d\<lparr>read_only := True\<rparr>) x c
     = (Inl (Exception (''Cannot set properties of read-only '' @ class_name d @ ''.'')), c)
   \<and> bool_property_setter post name (d\<lparr>read_only := True\<rparr>) b c
     = (Inl (Exception (''Cannot set properties of read-only '' @ class_name d @ ''.'')), c)
   \<and> bool_string_property_setter post name true_value false_value (d\<lparr>read_only := True\<rparr>) b c
     = (Inl (Exception (''Cannot set properties of read-only '' @ class_name d @ ''.'')), c)
   \<and> Exception ''String property values cannot contain '['.''
       \<noteq> Exception (''Cannot set properties of read-only '' @ class_name d @ ''.'')"
proof -
  have ro: "set_property_raise_if_read_only (d\<lparr>read_only := True\<rparr>)
              = Inl (Exception (''Cannot set properties of read-only '' @ class_name d @ ''.''))"
    by (simp add: set_property_raise_if_read_only_def)
  have "CHR ''['' \<in> set (to_bracket_string float_str p)"
    by (simp add: to_bracket_string_def)
  then have "point_property_setter float_str post name (d\<lparr>read_only := True\<rparr>) (PyPoint2D p) c
     = (Inl (Exception ''String property values cannot contain '['.''), c)"
    by (simp add: point_property_setter_def set_point2D_property_def set_property_def
        raise_if_invalid_string_property_value_def)
  with ro show ?thesis
    by (simp add: string_property_setter_def float_property_setter_def bool_property_setter_def
        bool_string_property_setter_def)
qed

section \<open>Properties of the bulk creation\<close>















end
